theory Spec2Isabelle
  imports Main "HOL-Library.Word"
begin

unbundle bit_operations_syntax

section \<open>The zktrie Hash codec (core/types/zktrie/hash.go)\<close>

text \<open>
  A shallow embedding of the conversion functions of the Go type \<^verbatim>\<open>Hash\<close>
  (\<^verbatim>\<open>type Hash [32]byte\<close>). A byte is an 8-bit word, a byte slice is a list of
  bytes, a Go string is a list of characters (bytes), and a \<^verbatim>\<open>*big.Int\<close> is an
  \<open>int\<close>. A \<^verbatim>\<open>Hash\<close> is a byte list; the array type fixes its length at 32,
  which the theorems carry as the hypothesis \<open>length h = 32\<close>.
  Functions of type \<^verbatim>\<open>(T, error)\<close> return \<open>error + T\<close>.
\<close>

subsection \<open>Data\<close>

type_synonym byte = "8 word"

type_synonym Hash = "byte list"

text \<open>The three \<^verbatim>\<open>fmt.Errorf\<close> values of the file, in the order they occur.\<close>

datatype error =
    ErrExpected32Bytes nat  \<comment> \<open>"expected 32 bytes, found %d bytes"\<close>
  | ErrNotInField           \<comment> \<open>"NewBigIntFromHashBytes: Value not inside the Finite Field"\<close>
  | ErrCannotParse          \<comment> \<open>"can not parse string to Hash"\<close>

text \<open>
  The result of a call that may end in a runtime panic instead of returning.
\<close>

datatype 'a outcome = Returned 'a | Panic

definition numCharPrint :: nat where
  "numCharPrint = 8"

definition ElemBytesLen :: nat where
  "ElemBytesLen = 32"

definition HashZero :: Hash where
  "HashZero = replicate 32 0"

subsection \<open>Go built-ins and library functions the file calls\<close>

text \<open>
  The built-in \<^verbatim>\<open>copy(dst, src)\<close> overwrites the first
  \<open>min (length dst) (length src)\<close> elements of \<open>dst\<close> with those of \<open>src\<close>;
  the model returns the updated destination.
\<close>

definition copy :: "'a list \<Rightarrow> 'a list \<Rightarrow> 'a list" where
  "copy dst src = take (length dst) src @ drop (length src) dst"

text \<open>
  \<^verbatim>\<open>(*big.Int).SetBytes\<close>: the buffer read as a big-endian unsigned integer.
\<close>

definition be_nat :: "byte list \<Rightarrow> nat" where
  "be_nat buf = foldl (\<lambda>acc b. acc * 256 + unat b) 0 buf"

definition SetBytes :: "byte list \<Rightarrow> int" where
  "SetBytes buf = int (be_nat buf)"

text \<open>
  \<^verbatim>\<open>(*big.Int).Bytes\<close>: the absolute value as a big-endian byte slice without
  leading zero bytes (the empty slice for 0).
\<close>

function nat_bytes :: "nat \<Rightarrow> byte list" where
  "nat_bytes n = (if n = 0 then [] else nat_bytes (n div 256) @ [of_nat (n mod 256)])"
  by pat_completeness auto
termination
  by (relation "measure id") auto

declare nat_bytes.simps [simp del]

definition Bytes :: "int \<Rightarrow> byte list" where
  "Bytes x = nat_bytes (nat \<bar>x\<bar>)"

text \<open>
  \<^verbatim>\<open>(*big.Int).String\<close>: the decimal representation, with a leading minus sign
  for a negative value. Each digit is looked up in the library's digit table, of
  which base 10 uses the first ten characters.
\<close>

definition digits :: string where
  "digits = ''0123456789''"

definition digit_char :: "nat \<Rightarrow> char" where
  "digit_char d = digits ! d"

function nat_digits :: "nat \<Rightarrow> string" where
  "nat_digits n = (if n < 10 then [digit_char n] else nat_digits (n div 10) @ [digit_char (n mod 10)])"
  by pat_completeness auto
termination
  by (relation "measure id") auto

declare nat_digits.simps [simp del]

definition String :: "int \<Rightarrow> string" where
  "String x = (if x < 0 then CHR ''-'' # nat_digits (nat (- x)) else nat_digits (nat x))"

text \<open>
  \<^verbatim>\<open>(*big.Int).SetString(s, 10)\<close>: an optional sign \<^verbatim>\<open>+\<close> or \<^verbatim>\<open>-\<close>, then the
  longest run of decimal digits; it fails when that run is empty or does not reach
  the end of the string.
\<close>

definition is_digit :: "char \<Rightarrow> bool" where
  "is_digit c = (48 \<le> (of_char c :: nat) \<and> (of_char c :: nat) \<le> 57)"

definition digits_val :: "string \<Rightarrow> nat" where
  "digits_val ds = foldl (\<lambda>acc c. acc * 10 + (of_char c - 48)) 0 ds"

definition scanSign :: "string \<Rightarrow> bool \<times> string" where
  "scanSign s = (case s of
       [] \<Rightarrow> (False, [])
     | c # r \<Rightarrow> if c = CHR ''-'' then (True, r)
                else if c = CHR ''+'' then (False, r)
                else (False, s))"

definition SetString :: "string \<Rightarrow> int option" where
  "SetString s =
     (let (neg, body) = scanSign s;
          ds = takeWhile is_digit body;
          rest = dropWhile is_digit body
      in if ds = [] then None
         else if rest \<noteq> [] then None
         else Some (if neg then - int (digits_val ds) else int (digits_val ds)))"

text \<open>
  \<^verbatim>\<open>hex.EncodeToString\<close>: two characters of \<^verbatim>\<open>hextable\<close> for each byte, the high
  nibble first.
\<close>

definition hextable :: string where
  "hextable = ''0123456789abcdef''"

definition EncodeToString :: "byte list \<Rightarrow> string" where
  "EncodeToString src =
     concat (map (\<lambda>v. [hextable ! unat (drop_bit 4 v), hextable ! unat (v AND 0x0f)]) src)"

text \<open>
  \<^verbatim>\<open>constants.Q\<close> and \<^verbatim>\<open>utils.CheckBigIntInField\<close> of go-iden3-crypto: the order
  of the scalar field of the curve BN254, and the test \<^verbatim>\<open>a.Cmp(Q) == -1\<close>.
\<close>

definition Q :: int where
  "Q = 21888242871839275222246405745257275088548364400416034343698204186575808495617"

definition CheckBigIntInField :: "int \<Rightarrow> bool" where
  "CheckBigIntInField a = (a < Q)"

text \<open>
  Modelled from the spec: \<^verbatim>\<open>common.FromHex\<close> (common/bytes.go of this repository)
  is not among the source files. The spec lets a hexadecimal string carry the prefix
  \<^verbatim>\<open>0x\<close> (\<^verbatim>\<open>"0x12"\<close> is a 1-byte payload) and says that a string which is not valid
  hexadecimal (an odd number of digits, or a character that is no hexadecimal digit)
  does not decode. The call site shows that the helper returns a byte slice and no
  error, so a string that does not decode yields the empty slice.
\<close>

definition has0xPrefix :: "string \<Rightarrow> bool" where
  "has0xPrefix s = (case s of c0 # c1 # _ \<Rightarrow> c0 = CHR ''0'' \<and> c1 = CHR ''x'' | _ \<Rightarrow> False)"

text \<open>
  Modelled from the spec: the digits of a hexadecimal string, its optional prefix
  taken off (part of the absent \<^verbatim>\<open>common.FromHex\<close>).
\<close>

definition hex_payload :: "string \<Rightarrow> string" where
  "hex_payload s = (if has0xPrefix s then drop 2 s else s)"

text \<open>
  Modelled from the spec: the value of a hexadecimal digit, in either case; \<open>None\<close>
  for any other character (part of the absent \<^verbatim>\<open>common.FromHex\<close>).
\<close>

definition hex_val :: "char \<Rightarrow> nat option" where
  "hex_val c =
     (let n = (of_char c :: nat)
      in if 48 \<le> n \<and> n \<le> 57 then Some (n - 48)
         else if 97 \<le> n \<and> n \<le> 102 then Some (n - 87)
         else if 65 \<le> n \<and> n \<le> 70 then Some (n - 55)
         else None)"

text \<open>
  Modelled from the spec: one byte for each pair of hexadecimal digits; \<open>None\<close> when
  a digit is left over or a character is no hexadecimal digit (part of the absent
  \<^verbatim>\<open>common.FromHex\<close>).
\<close>

fun decode_pairs :: "string \<Rightarrow> byte list option" where
  "decode_pairs [] = Some []"
| "decode_pairs [p] = None"
| "decode_pairs (p # q # r) =
     (case hex_val p of
        None \<Rightarrow> None
      | Some a \<Rightarrow>
          (case hex_val q of
             None \<Rightarrow> None
           | Some b \<Rightarrow>
               (case decode_pairs r of
                  None \<Rightarrow> None
                | Some bs \<Rightarrow> Some (of_nat (16 * a + b) # bs))))"

text \<open>
  Modelled from the spec: \<^verbatim>\<open>common.FromHex\<close> itself, absent from the source files:
  the decoded bytes of a valid hexadecimal string, the empty slice otherwise.
\<close>

definition FromHex :: "string \<Rightarrow> byte list" where
  "FromHex s = (case decode_pairs (hex_payload s) of None \<Rightarrow> [] | Some bs \<Rightarrow> bs)"

subsection \<open>The functions of hash.go\<close>

text \<open>
  \<^verbatim>\<open>ReverseByteOrder\<close>: a fresh slice \<open>o\<close> of the same length, and for each index
  \<open>i\<close> of \<open>b\<close> the assignment \<^verbatim>\<open>o[len(b)-1-i] = b[i]\<close>.
\<close>

definition ReverseByteOrder :: "byte list \<Rightarrow> byte list" where
  "ReverseByteOrder b =
     fold (\<lambda>i out. out[length b - 1 - i := b ! i]) [0..<length b] (replicate (length b) 0)"

text \<open>
  \<^verbatim>\<open>Hash.BigInt\<close>. The comparison of \<^verbatim>\<open>new(big.Int).SetBytes(...)\<close> with
  \<^verbatim>\<open>nil\<close> is never true (\<^verbatim>\<open>SetBytes\<close> returns its receiver), so the second return
  is the one taken.
\<close>

definition BigInt :: "Hash \<Rightarrow> int" where
  "BigInt h = SetBytes (ReverseByteOrder h)"

text \<open>\<^verbatim>\<open>Hash.Bytes\<close>: a copy of the array, reversed.\<close>

definition Hash_Bytes :: "Hash \<Rightarrow> byte list" where
  "Hash_Bytes h = ReverseByteOrder (copy (replicate 32 0) h)"

definition NewBigIntFromHashBytes :: "byte list \<Rightarrow> error + int" where
  "NewBigIntFromHashBytes b =
     (if length b \<noteq> ElemBytesLen then Inl (ErrExpected32Bytes (length b))
      else let bi = SetBytes (take ElemBytesLen b)
           in if \<not> CheckBigIntInField bi then Inl ErrNotInField
              else Inr bi)"

definition NewHashFromBigInt :: "int \<Rightarrow> Hash" where
  "NewHashFromBigInt b = copy HashZero (ReverseByteOrder (Bytes b))"

definition NewHashFromBytes :: "byte list \<Rightarrow> error + Hash" where
  "NewHashFromBytes b =
     (if length b \<noteq> ElemBytesLen then Inl (ErrExpected32Bytes (length b))
      else Inr (copy HashZero (ReverseByteOrder b)))"

definition NewHashFromHex :: "string \<Rightarrow> error + Hash" where
  "NewHashFromHex h = NewHashFromBytes (ReverseByteOrder (FromHex h))"

text \<open>
  \<^verbatim>\<open>NewHashFromString\<close> returns \<^verbatim>\<open>(nil, err)\<close> when the string does not parse:
  \<open>Inl\<close> stands for a nil \<^verbatim>\<open>*Hash\<close> together with the error.
\<close>

definition NewHashFromString :: "string \<Rightarrow> error + Hash" where
  "NewHashFromString s =
     (case SetString s of
        None \<Rightarrow> Inl ErrCannotParse
      | Some bi \<Rightarrow> Inr (NewHashFromBigInt bi))"

definition MarshalText :: "Hash \<Rightarrow> error + string" where
  "MarshalText h = Inr (String (BigInt h))"

text \<open>
  \<^verbatim>\<open>Hash.UnmarshalText\<close> on a non-nil receiver \<open>h\<close>. The statement
  \<^verbatim>\<open>copy(h[:], ha[:])\<close> runs before the error is looked at; \<^verbatim>\<open>ha[:]\<close> is
  \<^verbatim>\<open>(*ha)[:]\<close>, which panics with a nil pointer dereference when \<^verbatim>\<open>ha\<close> is nil.
  Otherwise the call returns the updated receiver and the error (nil).
\<close>

definition UnmarshalText :: "Hash \<Rightarrow> string \<Rightarrow> (Hash \<times> error option) outcome" where
  "UnmarshalText h b =
     (case NewHashFromString b of
        Inl err \<Rightarrow> Panic
      | Inr ha \<Rightarrow> Returned (copy h ha, None))"

definition Hash_String :: "Hash \<Rightarrow> string" where
  "Hash_String h =
     (let s = String (BigInt h)
      in if length s < numCharPrint then s
         else take numCharPrint s @ ''...'')"

definition Hex :: "Hash \<Rightarrow> string" where
  "Hex h = EncodeToString h"

section \<open>Properties\<close>

subsection \<open>Byte order\<close>

lemma fold_update_nth:
  assumes "k \<le> n" and "length out = n" and "j < n"
  shows "fold (\<lambda>i out. out[n - 1 - i := b ! i]) [0..<k] out ! j =
         (if n - 1 - j < k then b ! (n - 1 - j) else out ! j)"
  using assms
proof (induction k)
  case 0
  then show ?case by simp
next
  case (Suc k)
  let ?f = "fold (\<lambda>i out. out[n - 1 - i := b ! i]) [0..<k] out"
  have len: "length ?f = n"
    using Suc.prems(2) by (induction k) simp_all
  have ih: "?f ! j = (if n - 1 - j < k then b ! (n - 1 - j) else out ! j)"
    using Suc by simp
  show ?case
  proof (cases "n - 1 - k = j")
    case True
    then have "n - 1 - j = k" using Suc.prems by arith
    with True len Suc.prems show ?thesis by simp
  next
    case False
    then have "n - 1 - j \<noteq> k" using Suc.prems by arith
    with False ih show ?thesis by (simp add: less_Suc_eq)
  qed
qed

lemma fold_update_length:
  "length (fold (\<lambda>i out. out[f i := g i]) ks out) = length out"
  by (induction ks arbitrary: out) simp_all

lemma ReverseByteOrder_rev: "ReverseByteOrder b = rev b"
proof (rule nth_equalityI)
  show "length (ReverseByteOrder b) = length (rev b)"
    by (simp add: ReverseByteOrder_def fold_update_length)
next
  fix j
  assume "j < length (ReverseByteOrder b)"
  then have j: "j < length b"
    by (simp add: ReverseByteOrder_def fold_update_length)
  then have "ReverseByteOrder b ! j = b ! (length b - 1 - j)"
    unfolding ReverseByteOrder_def
    by (subst fold_update_nth [where n = "length b"]) auto
  also have "\<dots> = rev b ! j"
    using j by (simp add: rev_nth)
  finally show "ReverseByteOrder b ! j = rev b ! j" .
qed

lemma copy_full: "length src = length dst \<Longrightarrow> copy dst src = src"
  by (simp add: copy_def)

lemma copy_short:
  "length src \<le> n \<Longrightarrow> copy (replicate n z) src = src @ replicate (n - length src) z"
  by (simp add: copy_def)

lemma NewHashFromBytes_rev: "length b = 32 \<Longrightarrow> NewHashFromBytes b = Inr (rev b)"
  by (simp add: NewHashFromBytes_def ElemBytesLen_def HashZero_def ReverseByteOrder_rev copy_full)

lemma Hash_Bytes_rev: "length h = 32 \<Longrightarrow> Hash_Bytes h = rev h"
  by (simp add: Hash_Bytes_def ReverseByteOrder_rev copy_full)

subsection \<open>Bytes in, bytes out\<close>

text \<open>
  Claim C2. For every 32-byte buffer \<open>b\<close>, \<^verbatim>\<open>NewHashFromBytes\<close> succeeds and
  \<^verbatim>\<open>Hash.Bytes\<close> of its result is \<open>b\<close> again; for every Hash \<open>h\<close>,
  \<^verbatim>\<open>NewHashFromBytes\<close> of \<^verbatim>\<open>h.Bytes()\<close> succeeds and gives \<open>h\<close> back.
\<close>

theorem bytes_roundtrip:
  assumes "length b = 32" and "length h = 32"
  shows "(\<exists>h'. NewHashFromBytes b = Inr h' \<and> Hash_Bytes h' = b)
         \<and> NewHashFromBytes (Hash_Bytes h) = Inr h"
proof
  have "Hash_Bytes (rev b) = b"
    using assms(1) by (simp add: Hash_Bytes_rev)
  with assms(1) show "\<exists>h'. NewHashFromBytes b = Inr h' \<and> Hash_Bytes h' = b"
    by (simp add: NewHashFromBytes_rev)
next
  show "NewHashFromBytes (Hash_Bytes h) = Inr h"
    using assms(2) by (simp add: Hash_Bytes_rev NewHashFromBytes_rev)
qed

theorem bytes_roundtrip_witness:
  "(\<exists>h'. NewHashFromBytes (1 # replicate 31 0) = Inr h' \<and> Hash_Bytes h' = 1 # replicate 31 0)
   \<and> NewHashFromBytes (Hash_Bytes (2 # replicate 31 0)) = Inr (2 # replicate 31 0)"
  using bytes_roundtrip [of "1 # replicate 31 0" "2 # replicate 31 0"] by simp

text \<open>
  Claim C9, as stated: \<^verbatim>\<open>NewHashFromBytes\<close> stores a copy of \<open>b\<close> unchanged.
  It does not: the buffer whose first byte is 1 and whose other bytes are 0 is stored
  with the 1 in the last place.
\<close>

theorem NewHashFromBytes_unchanged_counterexample:
  "NewHashFromBytes (1 # replicate 31 0) \<noteq> Inr (1 # replicate 31 0)"
proof -
  have "NewHashFromBytes (1 # replicate 31 0) = Inr (rev (1 # replicate 31 0))"
    by (rule NewHashFromBytes_rev) simp
  moreover have "rev (1 # replicate 31 (0::byte)) \<noteq> 1 # replicate 31 0"
  proof
    assume "rev (1 # replicate 31 (0::byte)) = 1 # replicate 31 0"
    then have "hd (rev (1 # replicate 31 (0::byte))) = hd (1 # replicate 31 0)" by simp
    then show False by (simp add: numeral_eq_Suc)
  qed
  ultimately show ?thesis by simp
qed

text \<open>
  Claim C9, amended. For every 32-byte buffer \<open>b\<close>, \<^verbatim>\<open>NewHashFromBytes\<close> succeeds
  and stores the bytes of \<open>b\<close> in reverse order: storage byte \<open>i\<close> is byte
  \<open>31 - i\<close> of \<open>b\<close>. It succeeds whatever integer the bytes encode: no
  field-membership check is made.
\<close>

theorem NewHashFromBytes_reverses:
  "length b = 32 \<Longrightarrow>
     NewHashFromBytes b = Inr (rev b) \<and> (\<forall>i<32. rev b ! i = b ! (31 - i))"
  by (simp add: NewHashFromBytes_rev rev_nth)

theorem NewHashFromBytes_reverses_witness:
  "NewHashFromBytes (replicate 32 255) = Inr (rev (replicate 32 255))"
  using NewHashFromBytes_reverses [of "replicate 32 255"] by simp

subsection \<open>Integers and bytes\<close>

lemma nat_bytes_0: "nat_bytes 0 = []"
  by (simp add: nat_bytes.simps)

lemma nat_bytes_pos:
  "n \<noteq> 0 \<Longrightarrow> nat_bytes n = nat_bytes (n div 256) @ [of_nat (n mod 256)]"
  by (subst nat_bytes.simps) simp

lemma be_nat_Nil: "be_nat [] = 0"
  by (simp add: be_nat_def)

lemma be_nat_snoc: "be_nat (bs @ [b]) = be_nat bs * 256 + unat b"
  by (simp add: be_nat_def)

lemma be_nat_zeros: "be_nat (replicate k 0 @ bs) = be_nat bs"
proof -
  have "foldl (\<lambda>acc b. acc * 256 + unat b) 0 (replicate k (0::byte)) = 0"
    by (induction k) simp_all
  then show ?thesis by (simp add: be_nat_def)
qed

lemma unat_byte_of_nat: "unat (of_nat (n mod 256) :: byte) = n mod 256"
  by (simp add: unat_of_nat)

lemma unat_byte_lt: "unat (b::byte) < 256"
  using unsigned_less [of b, where ?'a = nat] by simp

lemma be_nat_nat_bytes: "be_nat (nat_bytes n) = n"
proof (induction n rule: nat_bytes.induct)
  case (1 n)
  show ?case
  proof (cases "n = 0")
    case True
    then show ?thesis by (simp add: nat_bytes_0 be_nat_Nil)
  next
    case False
    with 1 show ?thesis
      by (simp add: nat_bytes_pos be_nat_snoc unat_byte_of_nat)
  qed
qed

lemma length_nat_bytes: "n < 256 ^ k \<Longrightarrow> length (nat_bytes n) \<le> k"
proof (induction k arbitrary: n)
  case 0
  then show ?case by (simp add: nat_bytes_0)
next
  case (Suc k)
  show ?case
  proof (cases "n = 0")
    case True
    then show ?thesis by (simp add: nat_bytes_0)
  next
    case False
    from Suc.prems have "n div 256 < 256 ^ k"
      by (simp add: less_mult_imp_div_less mult.commute)
    then have "length (nat_bytes (n div 256)) \<le> k" by (rule Suc.IH)
    with False show ?thesis by (simp add: nat_bytes_pos)
  qed
qed

lemma be_nat_zero_iff: "be_nat bs = 0 \<Longrightarrow> bs = replicate (length bs) 0"
proof (induction bs rule: rev_induct)
  case Nil
  then show ?case by simp
next
  case (snoc b bs)
  from snoc.prems have z: "be_nat bs = 0" and b: "unat b = 0"
    by (simp_all add: be_nat_snoc)
  from b have "b = 0" by (simp add: unat_eq_0)
  moreover from z have "bs = replicate (length bs) 0" by (rule snoc.IH)
  ultimately have "bs @ [b] = replicate (length bs) 0 @ [0]" by simp
  then show ?case by (simp add: replicate_append_same)
qed

lemma nat_bytes_be_nat:
  "replicate (length bs - length (nat_bytes (be_nat bs))) 0 @ nat_bytes (be_nat bs) = bs"
proof (induction bs rule: rev_induct)
  case Nil
  then show ?case by (simp add: be_nat_Nil nat_bytes_0)
next
  case (snoc b bs)
  show ?case
  proof (cases "be_nat (bs @ [b]) = 0")
    case True
    then show ?thesis
      using be_nat_zero_iff [OF True] by (simp add: nat_bytes_0)
  next
    case False
    have d: "be_nat (bs @ [b]) div 256 = be_nat bs"
      by (simp add: be_nat_snoc unat_byte_lt)
    have "be_nat (bs @ [b]) mod 256 = unat b"
      by (simp add: be_nat_snoc unat_byte_lt)
    then have m: "of_nat (be_nat (bs @ [b]) mod 256) = b"
      by (simp del: of_nat_mod)
    have "nat_bytes (be_nat (bs @ [b])) = nat_bytes (be_nat bs) @ [b]"
      using False by (simp add: nat_bytes_pos d m del: of_nat_mod)
    then show ?thesis using snoc.IH by simp
  qed
qed

lemma length_nat_bytes_be_nat: "length (nat_bytes (be_nat bs)) \<le> length bs"
proof -
  have "length (replicate (length bs - length (nat_bytes (be_nat bs))) (0::byte) @ nat_bytes (be_nat bs)) = length bs"
    by (simp only: nat_bytes_be_nat)
  then show ?thesis by simp
qed


lemma length_nat_bytes_ge: "256 ^ k \<le> n \<Longrightarrow> k < length (nat_bytes n)"
proof (induction k arbitrary: n)
  case 0
  then have "n \<noteq> 0" by simp
  then show ?case by (simp add: nat_bytes_pos)
next
  case (Suc k)
  have "(0::nat) < 256 ^ Suc k" by simp
  then have "0 < n" using Suc.prems by (rule less_le_trans)
  then have n: "n \<noteq> 0" by simp
  from Suc.prems have "256 ^ k \<le> n div 256"
    by (simp add: less_eq_div_iff_mult_less_eq mult.commute)
  then have "k < length (nat_bytes (n div 256))" by (rule Suc.IH)
  with n show ?case by (simp add: nat_bytes_pos)
qed

lemma SetBytes_Bytes: "SetBytes (Bytes x) = \<bar>x\<bar>"
  by (simp add: SetBytes_def Bytes_def be_nat_nat_bytes)

lemma NewHashFromBigInt_eq:
  assumes "\<bar>x\<bar> < 256 ^ 32"
  shows "NewHashFromBigInt x = rev (Bytes x) @ replicate (32 - length (Bytes x)) 0"
proof -
  from assms have "nat \<bar>x\<bar> < 256 ^ 32" by simp
  then have "length (Bytes x) \<le> 32"
    unfolding Bytes_def by (rule length_nat_bytes)
  then show ?thesis
    by (simp add: NewHashFromBigInt_def HashZero_def ReverseByteOrder_rev copy_short)
qed

lemma BigInt_NewHashFromBigInt:
  assumes "\<bar>x\<bar> < 256 ^ 32"
  shows "BigInt (NewHashFromBigInt x) = \<bar>x\<bar>"
proof -
  have "BigInt (NewHashFromBigInt x) = SetBytes (replicate (32 - length (Bytes x)) 0 @ Bytes x)"
    by (simp add: BigInt_def NewHashFromBigInt_eq [OF assms] ReverseByteOrder_rev)
  also have "\<dots> = SetBytes (Bytes x)"
    by (simp add: SetBytes_def be_nat_zeros)
  finally show ?thesis by (simp add: SetBytes_Bytes)
qed

lemma Q_lt: "Q < 256 ^ 32"
  by (simp add: Q_def)

text \<open>
  Claim C1. For every integer \<open>n\<close> with \<open>0 \<le> n < Q\<close>, \<^verbatim>\<open>NewHashFromBigInt\<close>
  followed by \<^verbatim>\<open>Hash.BigInt\<close> gives \<open>n\<close> again.
\<close>

theorem integer_roundtrip:
  assumes "0 \<le> n" and "n < Q"
  shows "BigInt (NewHashFromBigInt n) = n"
proof -
  from assms Q_lt have "\<bar>n\<bar> < 256 ^ 32" by simp
  then have "BigInt (NewHashFromBigInt n) = \<bar>n\<bar>" by (rule BigInt_NewHashFromBigInt)
  with assms(1) show ?thesis by simp
qed

theorem integer_roundtrip_witness:
  "(0::int) \<le> 12345678 \<and> 12345678 < Q \<and> BigInt (NewHashFromBigInt 12345678) = 12345678"
  using integer_roundtrip [of 12345678] by (simp add: Q_def)

lemma length_Bytes_Q1: "length (Bytes (Q - 1)) = 32"
proof -
  have "nat \<bar>Q - 1\<bar> < 256 ^ 32" by (simp add: Q_def)
  then have "length (Bytes (Q - 1)) \<le> 32"
    unfolding Bytes_def by (rule length_nat_bytes)
  moreover have "256 ^ 31 \<le> nat \<bar>Q - 1\<bar>" by (simp add: Q_def)
  then have "31 < length (Bytes (Q - 1))"
    unfolding Bytes_def by (rule length_nat_bytes_ge)
  ultimately show ?thesis by simp
qed

lemma NewBigIntFromHashBytes_32:
  "length b = 32 \<Longrightarrow>
     NewBigIntFromHashBytes b = (if SetBytes b < Q then Inr (SetBytes b) else Inl ErrNotInField)"
  by (simp add: NewBigIntFromHashBytes_def ElemBytesLen_def CheckBigIntInField_def)

text \<open>
  Claim C3. \<^verbatim>\<open>NewBigIntFromHashBytes\<close> fails on every input whose length is not 32;
  on a 32-byte input it fails with the not-in-field error exactly when the big-endian
  integer of the bytes is at least \<open>Q\<close>, and returns that integer when it is below
  \<open>Q\<close>. The big-endian bytes of \<open>Q - 1\<close> are 32 bytes, and the call on them
  returns \<open>Q - 1\<close>.
\<close>

theorem NewBigIntFromHashBytes_validates:
  "(length b \<noteq> 32 \<longrightarrow> NewBigIntFromHashBytes b = Inl (ErrExpected32Bytes (length b)))
   \<and> (length b = 32 \<longrightarrow>
        (NewBigIntFromHashBytes b = Inl ErrNotInField \<longleftrightarrow> Q \<le> SetBytes b)
        \<and> (SetBytes b < Q \<longrightarrow> NewBigIntFromHashBytes b = Inr (SetBytes b)))
   \<and> length (Bytes (Q - 1)) = 32
   \<and> NewBigIntFromHashBytes (Bytes (Q - 1)) = Inr (Q - 1)"
proof (intro conjI impI)
  assume "length b \<noteq> 32"
  then show "NewBigIntFromHashBytes b = Inl (ErrExpected32Bytes (length b))"
    by (simp add: NewBigIntFromHashBytes_def ElemBytesLen_def)
next
  assume "length b = 32"
  then show "NewBigIntFromHashBytes b = Inl ErrNotInField \<longleftrightarrow> Q \<le> SetBytes b"
    by (simp add: NewBigIntFromHashBytes_32)
next
  assume "length b = 32" and "SetBytes b < Q"
  then show "NewBigIntFromHashBytes b = Inr (SetBytes b)"
    by (simp add: NewBigIntFromHashBytes_32)
next
  show "length (Bytes (Q - 1)) = 32" by (rule length_Bytes_Q1)
next
  have "SetBytes (Bytes (Q - 1)) = Q - 1"
    by (simp add: SetBytes_Bytes Q_def)
  then show "NewBigIntFromHashBytes (Bytes (Q - 1)) = Inr (Q - 1)"
    by (simp add: NewBigIntFromHashBytes_32 length_Bytes_Q1)
qed

theorem NewBigIntFromHashBytes_validates_witness:
  "NewBigIntFromHashBytes [] = Inl (ErrExpected32Bytes 0)
   \<and> NewBigIntFromHashBytes (replicate 32 0) = Inr 0
   \<and> NewBigIntFromHashBytes [255, 255, 255, 255, 255, 255, 255, 255, 255, 255, 255, 255, 255, 255, 255, 255, 255, 255, 255, 255, 255, 255, 255, 255, 255, 255, 255, 255, 255, 255, 255, 255] = Inl ErrNotInField"
proof -
  have z: "SetBytes (replicate 32 0) = 0"
    using be_nat_zeros [of 32 "[]"] by (simp add: SetBytes_def be_nat_Nil)
  have f: "Q \<le> SetBytes [255, 255, 255, 255, 255, 255, 255, 255, 255, 255, 255, 255, 255, 255, 255, 255, 255, 255, 255, 255, 255, 255, 255, 255, 255, 255, 255, 255, 255, 255, 255, 255]"
    by (simp add: SetBytes_def be_nat_def Q_def)
  show ?thesis
    using NewBigIntFromHashBytes_validates [of "[]"]
      NewBigIntFromHashBytes_validates [of "replicate 32 0"]
      NewBigIntFromHashBytes_validates [of "[255, 255, 255, 255, 255, 255, 255, 255, 255, 255, 255, 255, 255, 255, 255, 255, 255, 255, 255, 255, 255, 255, 255, 255, 255, 255, 255, 255, 255, 255, 255, 255]"] z f
    by (simp add: Q_def)
qed

subsection \<open>Decimal strings\<close>

lemma nat_digits_small: "n < 10 \<Longrightarrow> nat_digits n = [digit_char n]"
  by (subst nat_digits.simps) simp

lemma nat_digits_big:
  "\<not> n < 10 \<Longrightarrow> nat_digits n = nat_digits (n div 10) @ [digit_char (n mod 10)]"
  by (subst nat_digits.simps) simp

lemma of_char_digit_char:
  assumes "d < 10"
  shows "(of_char (digit_char d) :: nat) = 48 + d"
proof -
  from assms have "d = 0 \<or> d = 1 \<or> d = 2 \<or> d = 3 \<or> d = 4 \<or> d = 5 \<or> d = 6
      \<or> d = 7 \<or> d = 8 \<or> d = 9"
    by arith
  then show ?thesis
    by (auto simp: digit_char_def digits_def)
qed

lemma is_digit_digit_char: "d < 10 \<Longrightarrow> is_digit (digit_char d)"
  by (simp add: is_digit_def of_char_digit_char)

lemma nat_digits_not_Nil: "nat_digits n \<noteq> []"
  by (subst nat_digits.simps) simp

lemma nat_digits_all_digits: "list_all is_digit (nat_digits n)"
proof (induction n rule: nat_digits.induct)
  case (1 n)
  show ?case
  proof (cases "n < 10")
    case True
    then show ?thesis by (simp add: nat_digits_small is_digit_digit_char)
  next
    case False
    with 1 show ?thesis by (simp add: nat_digits_big is_digit_digit_char)
  qed
qed

lemma digits_val_snoc: "digits_val (ds @ [c]) = digits_val ds * 10 + (of_char c - 48)"
  by (simp add: digits_val_def)

lemma digits_val_nat_digits: "digits_val (nat_digits n) = n"
proof (induction n rule: nat_digits.induct)
  case (1 n)
  show ?case
  proof (cases "n < 10")
    case True
    then show ?thesis
      by (simp add: nat_digits_small digits_val_def of_char_digit_char)
  next
    case False
    with 1 show ?thesis
      by (simp add: nat_digits_big digits_val_snoc of_char_digit_char)
  qed
qed

lemma is_digit_not_sign: "is_digit c \<Longrightarrow> c \<noteq> CHR ''-'' \<and> c \<noteq> CHR ''+''"
  by (auto simp: is_digit_def)

lemma takeWhile_all: "list_all P xs \<Longrightarrow> takeWhile P xs = xs"
  by (induction xs) simp_all

lemma dropWhile_all: "list_all P xs \<Longrightarrow> dropWhile P xs = []"
  by (induction xs) simp_all

lemma SetString_digits:
  assumes "d \<noteq> []" and "list_all is_digit d"
  shows "SetString d = Some (int (digits_val d))"
proof -
  from assms obtain c r where d: "d = c # r" and c: "is_digit c"
    by (cases d) auto
  from c have "scanSign d = (False, d)"
    using is_digit_not_sign [of c] by (simp add: scanSign_def d)
  with assms show ?thesis
    by (simp add: SetString_def takeWhile_all dropWhile_all)
qed

lemma SetString_minus_digits:
  assumes "d \<noteq> []" and "list_all is_digit d"
  shows "SetString (CHR ''-'' # d) = Some (- int (digits_val d))"
proof -
  have "scanSign (CHR ''-'' # d) = (True, d)"
    by (simp add: scanSign_def)
  with assms show ?thesis
    by (simp add: SetString_def takeWhile_all dropWhile_all)
qed

lemma SetString_String: "0 \<le> x \<Longrightarrow> SetString (String x) = Some x"
  by (simp add: String_def SetString_digits nat_digits_not_Nil nat_digits_all_digits
      digits_val_nat_digits)

lemma length_NewHashFromBigInt: "length (NewHashFromBigInt x) = 32"
  by (simp add: NewHashFromBigInt_def HashZero_def copy_def)

lemma NewHashFromBigInt_minus: "NewHashFromBigInt (- x) = NewHashFromBigInt x"
  by (simp add: NewHashFromBigInt_def Bytes_def)

lemma BigInt_nonneg: "0 \<le> BigInt h"
  by (simp add: BigInt_def SetBytes_def)

lemma NewHashFromBigInt_BigInt:
  assumes "length h = 32"
  shows "NewHashFromBigInt (BigInt h) = h"
proof -
  let ?nb = "nat_bytes (be_nat (rev h))"
  have b: "Bytes (BigInt h) = ?nb"
    by (simp add: Bytes_def BigInt_def SetBytes_def ReverseByteOrder_rev)
  have le: "length ?nb \<le> 32"
    using length_nat_bytes_be_nat [of "rev h"] assms by simp
  have "replicate (32 - length ?nb) 0 @ ?nb = rev h"
    using nat_bytes_be_nat [of "rev h"] assms by simp
  then have "rev (replicate (32 - length ?nb) 0 @ ?nb) = h"
    by simp
  then have h: "rev ?nb @ replicate (32 - length ?nb) 0 = h"
    by simp
  have "NewHashFromBigInt (BigInt h) = rev ?nb @ replicate (32 - length ?nb) 0"
    using le by (simp add: NewHashFromBigInt_def b HashZero_def ReverseByteOrder_rev copy_short)
  with h show ?thesis by simp
qed

text \<open>
  Claim C7. For every Hash \<open>h\<close>, \<^verbatim>\<open>MarshalText\<close> returns the decimal string of the
  integer of \<open>h\<close> in full; that string parses back to the same integer, and
  \<^verbatim>\<open>NewHashFromString\<close> on it succeeds and returns \<open>h\<close>.
\<close>

theorem decimal_roundtrip:
  assumes "length h = 32"
  shows "MarshalText h = Inr (String (BigInt h))
         \<and> SetString (String (BigInt h)) = Some (BigInt h)
         \<and> NewHashFromString (String (BigInt h)) = Inr h"
  using assms
  by (simp add: MarshalText_def NewHashFromString_def SetString_String BigInt_nonneg
      NewHashFromBigInt_BigInt)

text \<open>
  Claim C10. For every non-empty string \<open>d\<close> of decimal digits,
  \<^verbatim>\<open>NewHashFromString\<close> on \<open>d\<close> with a minus sign in front succeeds, and returns
  the Hash that it returns on \<open>d\<close>: the Hash is built from the magnitude bytes.
\<close>

theorem negative_literal_accepted:
  assumes "d \<noteq> []" and "list_all is_digit d"
  shows "NewHashFromString (CHR ''-'' # d) = Inr (NewHashFromBigInt (int (digits_val d)))
         \<and> NewHashFromString (CHR ''-'' # d) = NewHashFromString d"
  using assms
  by (simp add: NewHashFromString_def SetString_digits SetString_minus_digits
      NewHashFromBigInt_minus)

theorem negative_literal_accepted_witness:
  "NewHashFromString ''-12'' = Inr (NewHashFromBigInt 12)
   \<and> NewHashFromString ''-12'' = NewHashFromString ''12''"
proof -
  have d: "''12'' \<noteq> []" "list_all is_digit ''12''"
    by (simp_all add: is_digit_def)
  have v: "int (digits_val ''12'') = 12"
    by (simp add: digits_val_def)
  show ?thesis
    using negative_literal_accepted [OF d] unfolding v .
qed

lemma UnmarshalText_parsed:
  "SetString b = Some x \<Longrightarrow> length h = 32 \<Longrightarrow>
     UnmarshalText h b = Returned (NewHashFromBigInt x, None)"
  by (simp add: UnmarshalText_def NewHashFromString_def copy_full length_NewHashFromBigInt)

lemma UnmarshalText_unparsed: "SetString b = None \<Longrightarrow> UnmarshalText h b = Panic"
  by (simp add: UnmarshalText_def NewHashFromString_def)

text \<open>
  Claim C5 says that \<^verbatim>\<open>UnmarshalText\<close> returns an error on a string that is no decimal
  integer, and that no input ends in a runtime fault. On the input \<^verbatim>\<open>abc\<close> the
  parse fails, \<^verbatim>\<open>NewHashFromString\<close> returns a nil pointer, and the \<^verbatim>\<open>copy\<close>
  that comes before \<^verbatim>\<open>return err\<close> dereferences it: the call panics.
\<close>

theorem UnmarshalText_invalid_panics:
  "UnmarshalText HashZero ''abc'' = Panic"
  by (simp add: UnmarshalText_def NewHashFromString_def SetString_def scanSign_def is_digit_def)


lemma String_12345678: "String 12345678 = ''12345678''"
  by (simp add: String_def nat_digits_small nat_digits_big digit_char_def digits_def)

lemma String_1234567: "String 1234567 = ''1234567''"
  by (simp add: String_def nat_digits_small nat_digits_big digit_char_def digits_def)

theorem decimal_roundtrip_witness:
  "MarshalText (NewHashFromBigInt 12345678) = Inr ''12345678''
   \<and> NewHashFromString ''12345678'' = Inr (NewHashFromBigInt 12345678)"
  using decimal_roundtrip [of "NewHashFromBigInt 12345678"]
  by (simp add: length_NewHashFromBigInt BigInt_NewHashFromBigInt String_12345678)

text \<open>
  Claim C8, as stated: the decimal string is returned unchanged whenever it has 8
  characters or fewer. It is not, for a string of exactly 8 characters: the Hash of
  12345678 is displayed with the ellipsis.
\<close>

theorem Hash_String_eight_counterexample:
  "length (String (BigInt (NewHashFromBigInt 12345678))) \<le> 8
   \<and> Hash_String (NewHashFromBigInt 12345678) \<noteq> String (BigInt (NewHashFromBigInt 12345678))
   \<and> Hash_String (NewHashFromBigInt 12345678) = ''12345678...''"
  by (simp add: Hash_String_def numCharPrint_def BigInt_NewHashFromBigInt String_12345678)

text \<open>
  Claim C8, amended. \<^verbatim>\<open>Hash.String\<close> returns the decimal string of the integer of
  \<open>h\<close> unchanged when it has fewer than 8 characters, and otherwise its first 8
  characters followed by three dots.
\<close>

theorem Hash_String_abbreviates:
  "(length (String (BigInt h)) < 8 \<longrightarrow> Hash_String h = String (BigInt h))
   \<and> (8 \<le> length (String (BigInt h)) \<longrightarrow>
        Hash_String h = take 8 (String (BigInt h)) @ ''...'')"
  by (simp add: Hash_String_def numCharPrint_def)

theorem Hash_String_abbreviates_witness:
  "Hash_String (NewHashFromBigInt 1234567) = ''1234567''
   \<and> Hash_String (NewHashFromBigInt 12345678) = ''12345678...''"
  using Hash_String_abbreviates [of "NewHashFromBigInt 1234567"]
    Hash_String_abbreviates [of "NewHashFromBigInt 12345678"]
  by (simp add: BigInt_NewHashFromBigInt String_12345678 String_1234567)

subsection \<open>Hexadecimal strings\<close>

lemma hi_nibble: "unat (drop_bit 4 (v::byte)) = unat v div 16"
  by (simp add: unat_drop_bit_eq drop_bit_eq_div unat_div_distrib)

lemma lo_nibble: "unat ((v::byte) AND 0x0f) = unat v mod 16"
proof -
  have "(v AND 0x0f) = take_bit 4 v"
    by (simp add: take_bit_eq_mask mask_eq_exp_minus_1)
  then show ?thesis
    by (simp add: unsigned_take_bit_eq take_bit_eq_mod unat_mod_distrib)
qed

lemma byte_of_nibbles: "of_nat (16 * (unat v div 16) + unat v mod 16) = (v::byte)"
  by simp

lemma hex_val_hextable:
  assumes "n < 16"
  shows "hex_val (hextable ! n) = Some n"
proof -
  from assms have "n = 0 \<or> n = 1 \<or> n = 2 \<or> n = 3 \<or> n = 4 \<or> n = 5 \<or> n = 6 \<or> n = 7
      \<or> n = 8 \<or> n = 9 \<or> n = 10 \<or> n = 11 \<or> n = 12 \<or> n = 13 \<or> n = 14 \<or> n = 15"
    by arith
  then show ?thesis
    by (auto simp: hextable_def hex_val_def)
qed

lemma hextable_mem: "n < 16 \<Longrightarrow> hextable ! n \<in> set hextable"
  by (rule nth_mem) (simp add: hextable_def)

lemma decode_pairs_EncodeToString: "decode_pairs (EncodeToString bs) = Some bs"
proof (induction bs)
  case Nil
  then show ?case by (simp add: EncodeToString_def)
next
  case (Cons v bs)
  have hi: "hex_val (hextable ! unat (drop_bit 4 v)) = Some (unat v div 16)"
    using hex_val_hextable [of "unat v div 16"] unat_byte_lt [of v]
    by (simp add: hi_nibble)
  have lo: "hex_val (hextable ! unat (v AND 0x0f)) = Some (unat v mod 16)"
    using hex_val_hextable [of "unat v mod 16"] by (simp add: lo_nibble)
  have "EncodeToString (v # bs) =
      hextable ! unat (drop_bit 4 v) # hextable ! unat (v AND 0x0f) # EncodeToString bs"
    by (simp add: EncodeToString_def)
  then show ?case
    using Cons.IH hi lo by (simp add: byte_of_nibbles del: of_nat_add of_nat_mult)
qed

lemma EncodeToString_no_prefix: "\<not> has0xPrefix (EncodeToString bs)"
proof (cases bs)
  case Nil
  then show ?thesis by (simp add: EncodeToString_def has0xPrefix_def)
next
  case (Cons v r)
  have "hex_val (hextable ! unat (v AND 0x0f)) = Some (unat v mod 16)"
    using hex_val_hextable [of "unat v mod 16"] by (simp add: lo_nibble)
  moreover have "hex_val CHR ''x'' = None"
    by (simp add: hex_val_def)
  ultimately have "hextable ! unat (v AND 0x0f) \<noteq> CHR ''x''"
    by auto
  then show ?thesis
    by (simp add: Cons EncodeToString_def has0xPrefix_def)
qed

lemma FromHex_EncodeToString: "FromHex (EncodeToString bs) = bs"
  by (simp add: FromHex_def hex_payload_def EncodeToString_no_prefix decode_pairs_EncodeToString)

lemma length_EncodeToString: "length (EncodeToString bs) = 2 * length bs"
  by (induction bs) (simp_all add: EncodeToString_def)

lemma set_EncodeToString: "set (EncodeToString bs) \<subseteq> set hextable"
proof (induction bs)
  case Nil
  then show ?case by (simp add: EncodeToString_def)
next
  case (Cons v bs)
  have "hextable ! unat (drop_bit 4 v) \<in> set hextable"
    using hextable_mem [of "unat v div 16"] unat_byte_lt [of v] by (simp add: hi_nibble)
  moreover have "hextable ! unat (v AND 0x0f) \<in> set hextable"
    using hextable_mem [of "unat v mod 16"] by (simp add: lo_nibble)
  moreover have "set (EncodeToString (v # bs)) =
      {hextable ! unat (drop_bit 4 v), hextable ! unat (v AND 0x0f)} \<union> set (EncodeToString bs)"
    by (simp add: EncodeToString_def)
  ultimately show ?case using Cons.IH by simp
qed

lemma NewHashFromHex_length:
  "NewHashFromHex s =
     (if length (FromHex s) = 32 then Inr (FromHex s)
      else Inl (ErrExpected32Bytes (length (FromHex s))))"
  by (simp add: NewHashFromHex_def NewHashFromBytes_def ElemBytesLen_def HashZero_def
      ReverseByteOrder_rev copy_full)

lemma decode_pairs_odd: "odd (length p) \<Longrightarrow> decode_pairs p = None"
  by (induction p rule: decode_pairs.induct) (simp_all split: option.splits)

lemma decode_pairs_all_hex:
  "decode_pairs p = Some bs \<Longrightarrow> c \<in> set p \<Longrightarrow> hex_val c \<noteq> None"
  by (induction p arbitrary: bs rule: decode_pairs.induct) (auto split: option.splits)

lemma decode_pairs_non_hex: "c \<in> set p \<Longrightarrow> hex_val c = None \<Longrightarrow> decode_pairs p = None"
  using decode_pairs_all_hex [of p _ c] by (cases "decode_pairs p") auto

lemma decode_pairs_length: "decode_pairs p = Some bs \<Longrightarrow> length p = 2 * length bs"
  by (induction p arbitrary: bs rule: decode_pairs.induct) (auto split: option.splits)

lemma FromHex_invalid: "decode_pairs (hex_payload s) = None \<Longrightarrow> FromHex s = []"
  by (simp add: FromHex_def)

text \<open>
  Claim C4. \<^verbatim>\<open>NewHashFromHex\<close> fails on every string that is not valid hexadecimal
  and on every string that does not decode to exactly 32 bytes. The digits of a
  string are what follows its optional \<^verbatim>\<open>0x\<close> prefix (\<open>hex_payload\<close>); in
  particular the call fails when their number is odd, and when one of them is no
  hexadecimal digit. The only error the function can return is the length error of
  \<^verbatim>\<open>NewHashFromBytes\<close>.
\<close>

theorem NewHashFromHex_rejects:
  "(decode_pairs (hex_payload s) = None \<longrightarrow> NewHashFromHex s = Inl (ErrExpected32Bytes 0))
   \<and> (length (FromHex s) \<noteq> 32 \<longrightarrow>
        NewHashFromHex s = Inl (ErrExpected32Bytes (length (FromHex s))))
   \<and> (length (hex_payload s) \<noteq> 64 \<longrightarrow> (\<exists>e. NewHashFromHex s = Inl e))
   \<and> (odd (length (hex_payload s)) \<longrightarrow> NewHashFromHex s = Inl (ErrExpected32Bytes 0))
   \<and> ((\<exists>c\<in>set (hex_payload s). hex_val c = None) \<longrightarrow>
        NewHashFromHex s = Inl (ErrExpected32Bytes 0))"
proof (intro conjI impI)
  assume "decode_pairs (hex_payload s) = None"
  then show "NewHashFromHex s = Inl (ErrExpected32Bytes 0)"
    by (simp add: NewHashFromHex_length FromHex_invalid)
next
  assume "length (FromHex s) \<noteq> 32"
  then show "NewHashFromHex s = Inl (ErrExpected32Bytes (length (FromHex s)))"
    by (simp add: NewHashFromHex_length)
next
  assume n: "length (hex_payload s) \<noteq> 64"
  have "length (FromHex s) \<noteq> 32"
  proof (cases "decode_pairs (hex_payload s)")
    case None
    then show ?thesis by (simp add: FromHex_invalid)
  next
    case (Some bs)
    with n decode_pairs_length [OF Some] show ?thesis by (simp add: FromHex_def)
  qed
  then show "\<exists>e. NewHashFromHex s = Inl e"
    by (simp add: NewHashFromHex_length)
next
  assume "odd (length (hex_payload s))"
  then have "decode_pairs (hex_payload s) = None" by (rule decode_pairs_odd)
  then show "NewHashFromHex s = Inl (ErrExpected32Bytes 0)"
    by (simp add: NewHashFromHex_length FromHex_invalid)
next
  assume "\<exists>c\<in>set (hex_payload s). hex_val c = None"
  then have "decode_pairs (hex_payload s) = None"
    by (auto intro: decode_pairs_non_hex)
  then show "NewHashFromHex s = Inl (ErrExpected32Bytes 0)"
    by (simp add: NewHashFromHex_length FromHex_invalid)
qed

theorem NewHashFromHex_rejects_witness:
  "NewHashFromHex ''0x12'' = Inl (ErrExpected32Bytes 1)
   \<and> NewHashFromHex ''123'' = Inl (ErrExpected32Bytes 0)
   \<and> NewHashFromHex ''zz'' = Inl (ErrExpected32Bytes 0)"
  using NewHashFromHex_rejects [of "''0x12''"] NewHashFromHex_rejects [of "''123''"]
    NewHashFromHex_rejects [of "''zz''"]
  by (simp add: FromHex_def hex_payload_def has0xPrefix_def hex_val_def)

text \<open>
  Claim C6. For every Hash \<open>h\<close>, \<^verbatim>\<open>Hash.Hex\<close> is a string of 64 lowercase
  hexadecimal digits that decodes to the storage bytes of \<open>h\<close> themselves (not to
  their reversal), and \<^verbatim>\<open>NewHashFromHex\<close> on it succeeds and returns \<open>h\<close>.
\<close>

theorem hex_roundtrip:
  assumes "length h = 32"
  shows "length (Hex h) = 64
         \<and> set (Hex h) \<subseteq> set ''0123456789abcdef''
         \<and> FromHex (Hex h) = h
         \<and> NewHashFromHex (Hex h) = Inr h"
  using assms set_EncodeToString [of h]
  by (simp add: Hex_def length_EncodeToString FromHex_EncodeToString NewHashFromHex_length
      hextable_def)

theorem hex_roundtrip_witness:
  "length (Hex (NewHashFromBigInt 12345678)) = 64
   \<and> FromHex (Hex (NewHashFromBigInt 12345678)) = NewHashFromBigInt 12345678
   \<and> NewHashFromHex (Hex (NewHashFromBigInt 12345678)) = Inr (NewHashFromBigInt 12345678)"
  using hex_roundtrip [of "NewHashFromBigInt 12345678"]
  by (simp add: length_NewHashFromBigInt)

end
